theory Spec2Isabelle
  imports Main "HOL-Library.AList"
begin

section \<open>Documents and the document store\<close>

text \<open>
  The queue of \<^verbatim>\<open>mongodb-queue.js\<close> keeps no state of its own: every operation builds a
  query document and an update document and hands them to one call of the store
  (\<^verbatim>\<open>insertOne\<close>, \<^verbatim>\<open>findOneAndUpdate\<close>, \<^verbatim>\<open>deleteMany\<close>, \<^verbatim>\<open>count\<close>).
  Documents are JavaScript objects, so they are modelled as association lists from field
  names to values; a field that is absent is a key that is not in the list.

  \<open>JDate t\<close> stands for the ISO-8601 string that \<^verbatim>\<open>new Date(t).toISOString()\<close> gives for the
  instant \<open>t\<close> (milliseconds since the epoch). For the years 0000 to 9999 those strings are
  ordered, as strings, the way the instants are, which is what the store's \<^verbatim>\<open>$lt\<close> and
  \<^verbatim>\<open>$gt\<close> compare; the model compares the instants. Seconds and milliseconds are integers.
\<close>

datatype json =
    JNull
  | JBool bool
  | JNum int
  | JStr string
  | JDate int
  | JObj "(string \<times> json) list"

type_synonym object = "(string \<times> json) list"

text \<open>A stored document: the \<^verbatim>\<open>_id\<close> the store gave it at insertion, and its other fields.\<close>

record document =
  oid :: nat
  obj :: object

text \<open>
  A collection: its documents in natural (insertion) order, the next \<^verbatim>\<open>_id\<close> to hand out
  (identifiers grow with insertion), and whether the unique sparse index on \<^verbatim>\<open>ack\<close> of
  \<^verbatim>\<open>createIndexes\<close> exists.
\<close>

record collection =
  docs :: "document list"
  next_oid :: nat
  ack_unique :: bool

datatype mongo_error =
    UnknownModifier string
  | TypeMismatch string
  | DuplicateKey

text \<open>
  \<open>Error p a\<close> is \<^verbatim>\<open>new Error(p + a)\<close>, the error of \<^verbatim>\<open>ping\<close> and \<^verbatim>\<open>ack\<close> for a token
  that matches nothing; \<open>MongoError e\<close> is an error of the store, passed on unchanged.
\<close>

datatype error =
    MongoError mongo_error
  | Error string json

definition empty_collection :: collection where
  "empty_collection = \<lparr>docs = [], next_oid = 0, ack_unique = False\<rparr>"

subsection \<open>Queries\<close>

text \<open>Values of different types never compare; numbers and dates compare by value.\<close>

fun json_lt :: "json \<Rightarrow> json \<Rightarrow> bool" where
  "json_lt (JNum a) (JNum b) = (a < b)"
| "json_lt (JDate a) (JDate b) = (a < b)"
| "json_lt _ _ = False"

text \<open>
  One condition \<^verbatim>\<open>field: value\<close> of a query: the operators this program uses
  (\<^verbatim>\<open>$lt\<close>, \<^verbatim>\<open>$gt\<close>, \<^verbatim>\<open>$exists\<close>), and equality with a literal
  (where \<^verbatim>\<open>null\<close> also matches an absent field).
\<close>

fun matches_cond :: "object \<Rightarrow> string \<times> json \<Rightarrow> bool" where
  "matches_cond d (k, JObj [(opr, v)]) =
     (if opr = ''$lt'' then (case map_of d k of None \<Rightarrow> False | Some x \<Rightarrow> json_lt x v)
      else if opr = ''$gt'' then (case map_of d k of None \<Rightarrow> False | Some x \<Rightarrow> json_lt v x)
      else if opr = ''$exists'' then ((map_of d k \<noteq> None) = (v = JBool True))
      else map_of d k = Some (JObj [(opr, v)]))"
| "matches_cond d (k, JNull) = (map_of d k = None \<or> map_of d k = Some JNull)"
| "matches_cond d (k, v) = (map_of d k = Some v)"

definition matches :: "object \<Rightarrow> document \<Rightarrow> bool" where
  "matches query d = list_all (matches_cond (obj d)) query"

fun find_first :: "('a \<Rightarrow> bool) \<Rightarrow> 'a list \<Rightarrow> nat option" where
  "find_first P [] = None"
| "find_first P (x # xs) =
     (if P x then Some 0 else map_option Suc (find_first P xs))"

text \<open>
  The position of the document that \<^verbatim>\<open>findOneAndUpdate\<close> picks: with the sort
  \<^verbatim>\<open>{ _id: 1 }\<close> the matching document of least \<^verbatim>\<open>_id\<close>, without a sort the first
  matching document in natural order.
\<close>

definition find_one :: "object \<Rightarrow> object \<Rightarrow> document list \<Rightarrow> nat option" where
  "find_one query sort_by ds =
     (if sort_by = [(''_id'', JNum 1)]
      then find_first (\<lambda>d. matches query d \<and>
             (\<forall>e \<in> set ds. matches query e \<longrightarrow> oid d \<le> oid e)) ds
      else find_first (matches query) ds)"

subsection \<open>Updates\<close>

text \<open>
  \<^verbatim>\<open>$inc\<close> adds to a numeric field and creates an absent one with the increment;
  \<^verbatim>\<open>$set\<close> writes a field, in place when it exists and at the end otherwise.
\<close>

fun apply_inc :: "object \<Rightarrow> (string \<times> json) list \<Rightarrow> mongo_error + object" where
  "apply_inc d [] = Inr d"
| "apply_inc d ((k, JNum n) # rest) =
     (case map_of d k of
        None \<Rightarrow> apply_inc (AList.update k (JNum n) d) rest
      | Some (JNum m) \<Rightarrow> apply_inc (AList.update k (JNum (m + n)) d) rest
      | Some _ \<Rightarrow> Inl (TypeMismatch k))"
| "apply_inc d ((k, _) # rest) = Inl (TypeMismatch k)"

fun apply_set :: "object \<Rightarrow> (string \<times> json) list \<Rightarrow> object" where
  "apply_set d [] = d"
| "apply_set d ((k, v) # rest) = apply_set (AList.update k v d) rest"

text \<open>
  An update document is a list of modifiers. The store parses all of it before it touches
  anything: a top-level key that is not a modifier (here: not \<^verbatim>\<open>$inc\<close> or \<^verbatim>\<open>$set\<close>)
  makes the whole operation fail.
\<close>

fun unknown_modifier :: "object \<Rightarrow> string option" where
  "unknown_modifier [] = None"
| "unknown_modifier ((k, v) # rest) =
     (if k = ''$inc'' \<or> k = ''$set'' then unknown_modifier rest else Some k)"

fun apply_update :: "object \<Rightarrow> object \<Rightarrow> mongo_error + object" where
  "apply_update [] d = Inr d"
| "apply_update ((k, JObj fs) # rest) d =
     (if k = ''$inc'' then
        (case apply_inc d fs of Inl e \<Rightarrow> Inl e | Inr d' \<Rightarrow> apply_update rest d')
      else if k = ''$set'' then apply_update rest (apply_set d fs)
      else Inl (UnknownModifier k))"
| "apply_update ((k, _) # rest) d = Inl (UnknownModifier k)"

text \<open>
  The unique sparse index on \<^verbatim>\<open>ack\<close>: a write that gives a document a new \<^verbatim>\<open>ack\<close>
  value fails when the index exists and some document already holds that value.
\<close>

definition ack_clash :: "collection \<Rightarrow> object \<Rightarrow> object \<Rightarrow> bool" where
  "ack_clash c old new =
     (ack_unique c \<and> map_of new ''ack'' \<noteq> map_of old ''ack'' \<and>
      (case map_of new ''ack'' of
         None \<Rightarrow> False
       | Some a \<Rightarrow> \<exists>d \<in> set (docs c). map_of (obj d) ''ack'' = Some a))"

subsection \<open>The operations of the store\<close>

definition insertOne :: "collection \<Rightarrow> object \<Rightarrow> mongo_error + (nat \<times> collection)" where
  "insertOne c msg =
     (if ack_clash c [] msg then Inl DuplicateKey
      else Inr (next_oid c,
                c\<lparr>docs := docs c @ [\<lparr>oid = next_oid c, obj = msg\<rparr>],
                  next_oid := Suc (next_oid c)\<rparr>))"

text \<open>
  \<^verbatim>\<open>findOneAndUpdate(query, update, { sort, returnOriginal: false })\<close>: one atomic step that
  finds one matching document, updates it and returns it as it is after the update, or
  returns no document and changes nothing.
\<close>

definition findOneAndUpdate ::
  "collection \<Rightarrow> object \<Rightarrow> object \<Rightarrow> object \<Rightarrow> mongo_error + (document option \<times> collection)" where
  "findOneAndUpdate c query update sort_by =
     (case unknown_modifier update of
        Some k \<Rightarrow> Inl (UnknownModifier k)
      | None \<Rightarrow>
         (case find_one query sort_by (docs c) of
            None \<Rightarrow> Inr (None, c)
          | Some i \<Rightarrow>
             (let d = docs c ! i in
              case apply_update update (obj d) of
                Inl e \<Rightarrow> Inl e
              | Inr f \<Rightarrow>
                 if ack_clash c (obj d) f then Inl DuplicateKey
                 else Inr (Some (d\<lparr>obj := f\<rparr>),
                           c\<lparr>docs := (docs c)[i := d\<lparr>obj := f\<rparr>]\<rparr>))))"

definition deleteMany :: "collection \<Rightarrow> object \<Rightarrow> nat \<times> collection" where
  "deleteMany c query =
     (length (filter (matches query) (docs c)),
      c\<lparr>docs := filter (\<lambda>d. \<not> matches query d) (docs c)\<rparr>)"

definition count :: "collection \<Rightarrow> object \<Rightarrow> nat" where
  "count c query = length (filter (matches query) (docs c))"

text \<open>
  \<^verbatim>\<open>createIndex({ ack: 1 }, { unique: true, sparse: true })\<close> fails when two documents
  already hold the same \<^verbatim>\<open>ack\<close> value.
\<close>

definition createIndex_ack :: "collection \<Rightarrow> mongo_error + collection" where
  "createIndex_ack c =
     (if distinct (filter (\<lambda>a. a \<noteq> None) (map (\<lambda>d. map_of (obj d) ''ack'') (docs c)))
      then Inr (c\<lparr>ack_unique := True\<rparr>) else Inl DuplicateKey)"

section \<open>The world the queue runs in\<close>

text \<open>
  The database (collections by name; a collection that was never written is empty), the
  system clock and the source of random bytes. \<open>clock w k\<close> is what the \<open>k\<close>-th reading of
  the clock (\<^verbatim>\<open>new Date()\<close> or \<^verbatim>\<open>Date.now()\<close>) gives, in milliseconds, and \<open>ticks w\<close>
  counts the readings made so far; \<open>entropy w k\<close> is what the \<open>k\<close>-th call of
  \<^verbatim>\<open>crypto.randomBytes(16).toString("hex")\<close> gives, and \<open>draws w\<close> counts those calls.
\<close>

record world =
  db :: "string \<Rightarrow> collection"
  clock :: "nat \<Rightarrow> int"
  ticks :: nat
  entropy :: "nat \<Rightarrow> string"
  draws :: nat

definition id_hex :: "world \<Rightarrow> string \<times> world" where
  "id_hex w = (entropy w (draws w), w\<lparr>draws := Suc (draws w)\<rparr>)"

definition now :: "world \<Rightarrow> json \<times> world" where
  "now w = (JDate (clock w (ticks w)), w\<lparr>ticks := Suc (ticks w)\<rparr>)"

definition nowPlusSecs :: "int \<Rightarrow> world \<Rightarrow> json \<times> world" where
  "nowPlusSecs secs w =
     (JDate (clock w (ticks w) + secs * 1000), w\<lparr>ticks := Suc (ticks w)\<rparr>)"

text \<open>\<^verbatim>\<open>_id.toHexString()\<close>: the 24 hexadecimal digits of the identifier.\<close>

definition hex_digit :: "nat \<Rightarrow> char" where
  "hex_digit n = ''0123456789abcdef'' ! (n mod 16)"

fun hex_digits :: "nat \<Rightarrow> nat \<Rightarrow> string" where
  "hex_digits 0 n = []"
| "hex_digits (Suc k) n = hex_digits k (n div 16) @ [hex_digit n]"

definition toHexString :: "nat \<Rightarrow> string" where
  "toHexString n = hex_digits 24 n"

section \<open>The queue\<close>

datatype queue =
  Queue (name: string) (visibility: int) (delay: int)
        (deadQueue: "queue option") (maxRetries: "int option")

text \<open>The \<^verbatim>\<open>opts\<close> argument of the constructor and of \<^verbatim>\<open>add\<close>, \<^verbatim>\<open>get\<close> and \<^verbatim>\<open>ping\<close>.\<close>

record queue_options =
  q_visibility :: "int option"
  q_delay :: "int option"
  q_deadQueue :: "queue option"
  q_maxRetries :: "int option"

record options =
  opt_visibility :: "int option"
  opt_delay :: "int option"
  opt_user :: "string option"

definition no_opts :: options where
  "no_opts = \<lparr>opt_visibility = None, opt_delay = None, opt_user = None\<rparr>"

text \<open>\<^verbatim>\<open>x || d\<close> on numbers: an absent \<open>x\<close> and zero give the default.\<close>

fun or_else :: "int option \<Rightarrow> int \<Rightarrow> int" where
  "or_else None d = d"
| "or_else (Some v) d = (if v = 0 then d else v)"

text \<open>\<^verbatim>\<open>if (user)\<close>: an absent user and the empty string are falsy.\<close>

fun truthy :: "string option \<Rightarrow> bool" where
  "truthy None = False"
| "truthy (Some s) = (s \<noteq> [])"

text \<open>\<^verbatim>\<open>msg.tries > self.maxRetries\<close>: false when either side is not a number.\<close>

fun js_gt :: "json option \<Rightarrow> int option \<Rightarrow> bool" where
  "js_gt (Some (JNum n)) (Some r) = (n > r)"
| "js_gt _ _ = False"

text \<open>Reading a property: \<^verbatim>\<open>undefined\<close> (sent to the store as \<^verbatim>\<open>null\<close>) when it is absent.\<close>

definition get_prop :: "object \<Rightarrow> string \<Rightarrow> json" where
  "get_prop m k = (case map_of m k of None \<Rightarrow> JNull | Some v \<Rightarrow> v)"

definition new_Queue :: "string \<Rightarrow> queue_options \<Rightarrow> string + queue" where
  "new_Queue nm opts =
     (if nm = [] then Inl ''mongodb-queue: provide a queue name''
      else Inr (Queue nm (or_else (q_visibility opts) 30) (or_else (q_delay opts) 0)
                  (q_deadQueue opts)
                  (if q_deadQueue opts \<noteq> None then Some (or_else (q_maxRetries opts) 5)
                   else None)))"

definition set_col :: "queue \<Rightarrow> collection \<Rightarrow> world \<Rightarrow> world" where
  "set_col self c w = w\<lparr>db := (db w)(name self := c)\<rparr>"

definition col :: "queue \<Rightarrow> world \<Rightarrow> collection" where
  "col self w = db w (name self)"

definition createIndexes :: "queue \<Rightarrow> world \<Rightarrow> (error + string) \<times> world" where
  "createIndexes self w =
     (case createIndex_ack (col self w) of
        Inl innerErr \<Rightarrow> (Inl (MongoError innerErr), w)
      | Inr c \<Rightarrow> (Inr ''deleted_1_visible_1__id_1'', set_col self c w))"

subsection \<open>add\<close>

definition add :: "queue \<Rightarrow> json \<Rightarrow> options \<Rightarrow> world \<Rightarrow> (error + string) \<times> world" where
  "add self payload opts w0 =
     (let dl = or_else (opt_delay opts) (delay self);
          (visible, w1) = (if dl \<noteq> 0 then nowPlusSecs dl w0 else now w0);
          msg = [(''visible'', visible), (''payload'', payload)]
      in case insertOne (col self w1) msg of
           Inl err \<Rightarrow> (Inl (MongoError err), w1)
         | Inr (i, c) \<Rightarrow> (Inr (toHexString i), set_col self c w1))"

subsection \<open>ping and ack\<close>

definition lease_query :: "json \<Rightarrow> json \<Rightarrow> object" where
  "lease_query a t =
     [(''ack'', a),
      (''visible'', JObj [(''$gt'', t)]),
      (''deleted'', JObj [(''$exists'', JBool False)])]"

definition ping :: "queue \<Rightarrow> json \<Rightarrow> options \<Rightarrow> world \<Rightarrow> (error + string) \<times> world" where
  "ping self a opts w0 =
     (let vis = or_else (opt_visibility opts) (visibility self);
          (t1, w1) = now w0;
          query = lease_query a t1;
          (t2, w2) = nowPlusSecs vis w1;
          update = [(''$set'', JObj [(''visible'', t2)])]
      in case findOneAndUpdate (col self w2) query update [] of
           Inl err \<Rightarrow> (Inl (MongoError err), w2)
         | Inr (None, c) \<Rightarrow> (Inl (Error ''Queue.ping(): Unidentified ack  : '' a), w2)
         | Inr (Some d, c) \<Rightarrow> (Inr (toHexString (oid d)), set_col self c w2))"

definition ack :: "queue \<Rightarrow> json \<Rightarrow> world \<Rightarrow> (error + string) \<times> world" where
  "ack self a w0 =
     (let (t1, w1) = now w0;
          query = lease_query a t1;
          (t2, w2) = now w1;
          update = [(''$set'', JObj [(''deleted'', t2)])]
      in case findOneAndUpdate (col self w2) query update [] of
           Inl err \<Rightarrow> (Inl (MongoError err), w2)
         | Inr (None, c) \<Rightarrow> (Inl (Error ''Queue.ack(): Unidentified ack : '' a), w2)
         | Inr (Some d, c) \<Rightarrow> (Inr (toHexString (oid d)), set_col self c w2))"

subsection \<open>get\<close>

definition pending_query :: "json \<Rightarrow> object" where
  "pending_query t =
     [(''visible'', JObj [(''$lt'', t)]),
      (''deleted'', JObj [(''$exists'', JBool False)])]"

text \<open>
  The update document of \<^verbatim>\<open>get\<close>. The user is written as a key of the update document
  itself (\<^verbatim>\<open>update.user = user\<close>), beside \<^verbatim>\<open>$inc\<close> and \<^verbatim>\<open>$set\<close>.
\<close>

definition claim_update :: "string \<Rightarrow> json \<Rightarrow> json \<Rightarrow> string option \<Rightarrow> object" where
  "claim_update a t2 t3 user =
     [(''$inc'', JObj [(''tries'', JNum 1)]),
      (''$set'', JObj [(''ack'', JStr a), (''visible'', t2), (''firstClaimed'', t3)])]
     @ (if truthy user then [(''user'', JStr (the user))] else [])"

text \<open>
  The first half of \<^verbatim>\<open>get\<close>, up to the callback of \<^verbatim>\<open>findOneAndUpdate\<close>: three readings
  of the clock and one fresh token, then the one atomic store operation.
\<close>

definition claim :: "queue \<Rightarrow> options \<Rightarrow> world \<Rightarrow> (mongo_error + document option) \<times> world" where
  "claim self opts w0 =
     (let user = opt_user opts;
          vis = or_else (opt_visibility opts) (visibility self);
          (t1, w1) = now w0;
          query = pending_query t1;
          sort_by = [(''_id'', JNum 1)];
          (a, w2) = id_hex w1;
          (t2, w3) = nowPlusSecs vis w2;
          (t3, w4) = now w3;
          update = claim_update a t2 t3 user
      in case findOneAndUpdate (col self w4) query update sort_by of
           Inl err \<Rightarrow> (Inl err, w4)
         | Inr (None, c) \<Rightarrow> (Inr None, w4)
         | Inr (Some d, c) \<Rightarrow> (Inr (Some d), set_col self c w4))"

text \<open>\<^verbatim>\<open>msg.id = msg._id.toHexString(); delete msg._id\<close>\<close>

definition to_msg :: "document \<Rightarrow> object" where
  "to_msg d = AList.update ''id'' (JStr (toHexString (oid d))) (obj d)"

text \<open>
  \<^verbatim>\<open>get\<close> calls itself after it has moved a message to the dead queue, so it may not
  return: \<open>None\<close> is the run that never calls back. The result \<open>Inr None\<close> is the callback
  without arguments (no message), \<open>Inr (Some msg)\<close> is \<^verbatim>\<open>callback(null, msg)\<close>.
\<close>

partial_function (option) get ::
  "queue \<Rightarrow> options \<Rightarrow> world \<Rightarrow> ((error + object option) \<times> world) option" where
  "get self opts w0 =
     (case claim self opts w0 of
        (Inl err, w) \<Rightarrow> Some (Inl (MongoError err), w)
      | (Inr None, w) \<Rightarrow> Some (Inr None, w)
      | (Inr (Some d), w) \<Rightarrow>
         (let msg = to_msg d in
          if deadQueue self \<noteq> None \<and> js_gt (map_of msg ''tries'') (maxRetries self) then
            (case add (the (deadQueue self)) (JObj msg) no_opts w of
               (Inl addErr, w') \<Rightarrow> Some (Inl addErr, w')
             | (Inr added, w') \<Rightarrow>
                (case ack self (get_prop msg ''ack'') w' of
                   (Inl ackErr, w'') \<Rightarrow> Some (Inl ackErr, w'')
                 | (Inr acked, w'') \<Rightarrow> get self no_opts w''))
          else Some (Inr (Some msg), w)))"

declare get.simps [code]

subsection \<open>Housekeeping and counts\<close>

definition clean :: "queue \<Rightarrow> world \<Rightarrow> nat \<times> world" where
  "clean self w =
     (case deleteMany (col self w) [(''deleted'', JObj [(''$exists'', JBool True)])] of
        (n, c) \<Rightarrow> (n, set_col self c w))"

definition total :: "queue \<Rightarrow> world \<Rightarrow> nat" where
  "total self w = count (col self w) []"

definition size_q :: "queue \<Rightarrow> world \<Rightarrow> nat \<times> world" where
  "size_q self w0 = (let (t, w1) = now w0 in (count (col self w1) (pending_query t), w1))"

definition inFlight :: "queue \<Rightarrow> world \<Rightarrow> nat \<times> world" where
  "inFlight self w0 =
     (let (t, w1) = now w0 in
      (count (col self w1)
         [(''visible'', JObj [(''$gt'', t)]),
          (''ack'', JObj [(''$exists'', JBool True)]),
          (''deleted'', JObj [(''$exists'', JBool False)])], w1))"

definition done_q :: "queue \<Rightarrow> world \<Rightarrow> nat" where
  "done_q self w = count (col self w) [(''deleted'', JObj [(''$exists'', JBool True)])]"

section \<open>The vocabulary of the properties\<close>

text \<open>
  The properties speak of a message's fields, not of query documents. \<open>pending t d\<close>: at
  the clock reading \<open>t\<close> the message is not done and its \<^verbatim>\<open>visible\<close> instant lies before
  \<open>t\<close>. \<open>leased a t d\<close>: at \<open>t\<close> the message is not done, holds the token \<open>a\<close> and its
  \<^verbatim>\<open>visible\<close> instant lies after \<open>t\<close>. \<open>holds a d\<close>: the message has the token \<open>a\<close> in
  its \<^verbatim>\<open>ack\<close> field, whatever its other fields say. These predicates follow the words
  of the properties; the lemmas \<open>matches_pending\<close> and \<open>matches_lease\<close> below show that
  they are what the query documents of \<^verbatim>\<open>get\<close>, and of \<^verbatim>\<open>ping\<close> and \<^verbatim>\<open>ack\<close>, match.
\<close>

abbreviation fld :: "document \<Rightarrow> string \<Rightarrow> json option" where
  "fld d k \<equiv> map_of (obj d) k"

definition pending :: "int \<Rightarrow> document \<Rightarrow> bool" where
  "pending t d =
     ((case fld d ''visible'' of Some (JDate v) \<Rightarrow> v < t | _ \<Rightarrow> False) \<and>
      fld d ''deleted'' = None)"



text \<open>
  \<open>tries_of d\<close> reads the counter, which counts as 0 while the field is absent (the way
  \<^verbatim>\<open>$inc\<close> reads it); \<open>numeric_tries d\<close> says that the field is absent or a number, as it
  is in every document this program writes; \<open>tries_in w nm\<close> lists the counters of a
  collection in natural order.
\<close>

definition tries_of :: "document \<Rightarrow> int" where
  "tries_of d = (case fld d ''tries'' of Some (JNum n) \<Rightarrow> n | _ \<Rightarrow> 0)"

definition numeric_tries :: "document \<Rightarrow> bool" where
  "numeric_tries d = (case fld d ''tries'' of None \<Rightarrow> True | Some (JNum n) \<Rightarrow> True | _ \<Rightarrow> False)"


text \<open>
  What one atomic claim leaves behind: the clock was read three times and one token was
  drawn; the claimed document has four fields written.
\<close>

definition after_claim_reads :: "world \<Rightarrow> world" where
  "after_claim_reads w = w\<lparr>draws := Suc (draws w), ticks := Suc (Suc (Suc (ticks w)))\<rparr>"

definition claimed :: "string \<Rightarrow> json \<Rightarrow> json \<Rightarrow> document \<Rightarrow> document" where
  "claimed a t2 t3 d =
     d\<lparr>obj := AList.update ''firstClaimed'' t3 (AList.update ''visible'' t2
            (AList.update ''ack'' (JStr a)
               (AList.update ''tries'' (JNum (tries_of d + 1)) (obj d))))\<rparr>"

text \<open>
  What \<^verbatim>\<open>ack\<close> and \<^verbatim>\<open>ping\<close> leave behind: the clock was read twice; the document has
  \<^verbatim>\<open>deleted\<close>, or \<^verbatim>\<open>visible\<close>, written. And the document that \<^verbatim>\<open>add\<close> inserts.
\<close>

definition after_lease_reads :: "world \<Rightarrow> world" where
  "after_lease_reads w = w\<lparr>ticks := Suc (Suc (ticks w))\<rparr>"

definition acked :: "json \<Rightarrow> document \<Rightarrow> document" where
  "acked t d = d\<lparr>obj := AList.update ''deleted'' t (obj d)\<rparr>"


definition enqueued :: "nat \<Rightarrow> int \<Rightarrow> json \<Rightarrow> document" where
  "enqueued i v payload = \<lparr>oid = i, obj = [(''visible'', JDate v), (''payload'', payload)]\<rparr>"


text \<open>
  How the database may change over any sequence of \<^verbatim>\<open>add\<close>, \<^verbatim>\<open>get\<close>, \<^verbatim>\<open>ping\<close> and
  \<^verbatim>\<open>ack\<close>: documents keep their position, their identifier and their payload, their
  counter does not drop, a document with a \<^verbatim>\<open>deleted\<close> field stays exactly as it is, and
  new documents come at the end. These relations are used in proofs only.
  \<open>live_docs\<close> counts the documents without a \<^verbatim>\<open>deleted\<close> field: the measure by which
  the recursion of \<^verbatim>\<open>get\<close> ends.
\<close>

definition step_ok :: "document \<Rightarrow> document \<Rightarrow> bool" where
  "step_ok d d' =
     (oid d' = oid d \<and> fld d' ''payload'' = fld d ''payload'' \<and>
      tries_of d \<le> tries_of d' \<and> (fld d ''deleted'' \<noteq> None \<longrightarrow> d' = d))"

definition grows :: "document list \<Rightarrow> document list \<Rightarrow> bool" where
  "grows ds ds' = (length ds \<le> length ds' \<and> (\<forall>j < length ds. step_ok (ds ! j) (ds' ! j)))"

definition evolves :: "world \<Rightarrow> world \<Rightarrow> bool" where
  "evolves w w' = (\<forall>nm. grows (docs (db w nm)) (docs (db w' nm)))"


subsection \<open>Concrete queues and worlds\<close>

text \<open>
  The inputs of the examples. The queue \<open>jobs\<close> has the default lease of 30 seconds and
  no dead queue; \<open>jobs_dl\<close> is the same queue with the dead queue \<open>dead\<close> and
  \<^verbatim>\<open>maxRetries\<close> = 1. Each world fixes the database, what the clock will read and what
  tokens will be drawn.
\<close>

definition empty_db :: "string \<Rightarrow> collection" where
  "empty_db = (\<lambda>nm. empty_collection)"

definition jobs :: queue where
  "jobs = Queue ''jobs'' 30 0 None None"

definition dead :: queue where
  "dead = Queue ''dead'' 30 0 None None"

definition jobs_dl :: queue where
  "jobs_dl = Queue ''jobs'' 30 0 (Some dead) (Some 1)"

definition alice :: options where
  "alice = \<lparr>opt_visibility = None, opt_delay = None, opt_user = Some ''alice''\<rparr>"


definition two_pending :: world where
  "two_pending =
     \<lparr>db = empty_db(''jobs'' :=
         \<lparr>docs = [\<lparr>oid = 0, obj = [(''visible'', JDate 100), (''payload'', JStr ''A'')]\<rparr>,
                  \<lparr>oid = 1, obj = [(''visible'', JDate 200), (''payload'', JStr ''B'')]\<rparr>],
          next_oid = 2, ack_unique = True\<rparr>),
      clock = (\<lambda>k. 1000 + int k), ticks = 0,
      entropy = (\<lambda>k. replicate (Suc k) CHR ''a''), draws = 0\<rparr>"


definition lease_lapses :: world where
  "lease_lapses =
     \<lparr>db = empty_db(''jobs'' :=
         \<lparr>docs = [\<lparr>oid = 0, obj = [(''visible'', JDate 100), (''payload'', JStr ''A'')]\<rparr>],
          next_oid = 1, ack_unique = True\<rparr>),
      clock = (\<lambda>k. if k < 3 then 1000 + int k else 40000 + int k), ticks = 0,
      entropy = (\<lambda>k. replicate (Suc k) CHR ''a''), draws = 0\<rparr>"




definition one_exhausted :: world where
  "one_exhausted =
     \<lparr>db = empty_db(''jobs'' :=
         \<lparr>docs = [\<lparr>oid = 0, obj = [(''visible'', JDate 100), (''payload'', JStr ''A''),
                                  (''tries'', JNum 1), (''ack'', JStr ''z''),
                                  (''firstClaimed'', JDate 50)]\<rparr>,
                  \<lparr>oid = 1, obj = [(''visible'', JDate 200), (''payload'', JStr ''B'')]\<rparr>],
          next_oid = 2, ack_unique = True\<rparr>),
      clock = (\<lambda>k. 1000 + int k), ticks = 0,
      entropy = (\<lambda>k. replicate (Suc k) CHR ''a''), draws = 0\<rparr>"

section \<open>The store\<close>

lemma matches_pending: "matches (pending_query (JDate t)) d = pending t d"
  by (auto simp: matches_def pending_query_def pending_def split: option.splits json.splits)


lemma find_first_None: "find_first P xs = None \<longleftrightarrow> (\<forall>x \<in> set xs. \<not> P x)"
  by (induction xs) auto

lemma find_first_Some:
  "find_first P xs = Some i \<Longrightarrow> i < length xs \<and> P (xs ! i) \<and> (\<forall>j<i. \<not> P (xs ! j))"
proof (induction xs arbitrary: i)
  case Nil
  then show ?case by simp
next
  case (Cons x xs)
  show ?case
  proof (cases "P x")
    case True
    with Cons.prems show ?thesis by simp
  next
    case False
    with Cons.prems obtain k where k: "find_first P xs = Some k" "i = Suc k"
      by auto
    from Cons.IH [OF k(1)] False k(2) show ?thesis
      by (auto simp: nth_Cons split: nat.splits)
  qed
qed

lemma least_oid_exists:
  assumes "d \<in> set ds" "P d"
  shows "\<exists>m \<in> set ds. P m \<and> (\<forall>e \<in> set ds. P e \<longrightarrow> oid m \<le> oid e)"
proof -
  let ?S = "oid ` {e \<in> set ds. P e}"
  have fin: "finite ?S" by simp
  have ne: "?S \<noteq> {}" using assms by auto
  from Min_in [OF fin ne] obtain m where m: "m \<in> set ds" "P m" "oid m = Min ?S"
    by auto
  have "\<forall>e \<in> set ds. P e \<longrightarrow> oid m \<le> oid e"
    using m(3) Min_le [OF fin] by auto
  with m show ?thesis by blast
qed

lemma find_one_sorted_None:
  "find_one q [(''_id'', JNum 1)] ds = None \<longleftrightarrow> (\<forall>d \<in> set ds. \<not> matches q d)"
proof
  assume n: "find_one q [(''_id'', JNum 1)] ds = None"
  show "\<forall>d \<in> set ds. \<not> matches q d"
  proof (rule ccontr)
    assume "\<not> (\<forall>d \<in> set ds. \<not> matches q d)"
    then obtain d where "d \<in> set ds" "matches q d" by blast
    from least_oid_exists [of d ds "matches q", OF this]
    obtain m where "m \<in> set ds" "matches q m" "\<forall>e \<in> set ds. matches q e \<longrightarrow> oid m \<le> oid e"
      by blast
    with n show False by (auto simp: find_one_def find_first_None)
  qed
next
  assume "\<forall>d \<in> set ds. \<not> matches q d"
  then show "find_one q [(''_id'', JNum 1)] ds = None"
    by (simp add: find_one_def find_first_None)
qed

lemma find_one_sorted_Some:
  assumes "find_one q [(''_id'', JNum 1)] ds = Some i"
  shows "i < length ds" "matches q (ds ! i)"
    "\<forall>e \<in> set ds. matches q e \<longrightarrow> oid (ds ! i) \<le> oid e"
  using find_first_Some [of _ ds i] assms by (auto simp: find_one_def)

lemma find_one_natural: "find_one q [] ds = find_first (matches q) ds"
  by (simp add: find_one_def)

lemma unknown_modifier_claim:
  "unknown_modifier (claim_update a t2 t3 u) = (if truthy u then Some ''user'' else None)"
  by (simp add: claim_update_def)

lemma apply_update_claim:
  assumes "numeric_tries d" "\<not> truthy u"
  shows "apply_update (claim_update a t2 t3 u) (obj d) =
     Inr (AList.update ''firstClaimed'' t3 (AList.update ''visible'' t2
            (AList.update ''ack'' (JStr a)
               (AList.update ''tries'' (JNum (tries_of d + 1)) (obj d)))))"
  using assms
  by (auto simp: claim_update_def numeric_tries_def tries_of_def split: option.splits json.splits)

lemma fOAU_unknown:
  "unknown_modifier u = Some k \<Longrightarrow> findOneAndUpdate c q u s = Inl (UnknownModifier k)"
  by (simp add: findOneAndUpdate_def)



lemma claim_unfold:
  "claim self opts w =
     (case findOneAndUpdate (col self w)
             (pending_query (JDate (clock w (ticks w))))
             (claim_update (entropy w (draws w))
                (JDate (clock w (Suc (ticks w)) +
                        or_else (opt_visibility opts) (visibility self) * 1000))
                (JDate (clock w (Suc (Suc (ticks w))))) (opt_user opts))
             [(''_id'', JNum 1)] of
        Inl err \<Rightarrow> (Inl err, after_claim_reads w)
      | Inr (None, c) \<Rightarrow> (Inr None, after_claim_reads w)
      | Inr (Some d, c) \<Rightarrow> (Inr (Some d), set_col self c (after_claim_reads w)))"
  by (simp add: claim_def now_def nowPlusSecs_def id_hex_def col_def Let_def after_claim_reads_def
      split: sum.splits option.splits prod.splits)

lemma ack_unfold:
  "ack self a w =
     (let w2 = w\<lparr>ticks := Suc (Suc (ticks w))\<rparr> in
      case findOneAndUpdate (col self w) (lease_query a (JDate (clock w (ticks w))))
             [(''$set'', JObj [(''deleted'', JDate (clock w (Suc (ticks w))))])] [] of
        Inl err \<Rightarrow> (Inl (MongoError err), w2)
      | Inr (None, c) \<Rightarrow> (Inl (Error ''Queue.ack(): Unidentified ack : '' a), w2)
      | Inr (Some d, c) \<Rightarrow> (Inr (toHexString (oid d)), set_col self c w2))"
  by (simp add: ack_def now_def col_def Let_def split: sum.splits option.splits prod.splits)

lemma ping_unfold:
  "ping self a opts w =
     (let w2 = w\<lparr>ticks := Suc (Suc (ticks w))\<rparr> in
      case findOneAndUpdate (col self w) (lease_query a (JDate (clock w (ticks w))))
             [(''$set'', JObj [(''visible'', JDate (clock w (Suc (ticks w)) +
                  or_else (opt_visibility opts) (visibility self) * 1000))])] [] of
        Inl err \<Rightarrow> (Inl (MongoError err), w2)
      | Inr (None, c) \<Rightarrow> (Inl (Error ''Queue.ping(): Unidentified ack  : '' a), w2)
      | Inr (Some d, c) \<Rightarrow> (Inr (toHexString (oid d)), set_col self c w2))"
  by (simp add: ping_def now_def nowPlusSecs_def col_def Let_def
      split: sum.splits option.splits prod.splits)

lemma add_unfold:
  "add self payload opts w =
     (Inr (toHexString (next_oid (col self w))),
      set_col self
        ((col self w)\<lparr>docs := docs (col self w) @
            [\<lparr>oid = next_oid (col self w),
              obj = [(''visible'', JDate (clock w (ticks w) +
                         or_else (opt_delay opts) (delay self) * 1000)),
                     (''payload'', payload)]\<rparr>],
          next_oid := Suc (next_oid (col self w))\<rparr>)
        (w\<lparr>ticks := Suc (ticks w)\<rparr>))"
  by (simp add: add_def now_def nowPlusSecs_def col_def Let_def insertOne_def ack_clash_def)

lemma fld_claimed:
  "fld (claimed a t2 t3 d) =
     (fld d)(''tries'' \<mapsto> JNum (tries_of d + 1), ''ack'' \<mapsto> JStr a,
             ''visible'' \<mapsto> t2, ''firstClaimed'' \<mapsto> t3)"
  by (rule ext) (simp add: claimed_def update_conv')

lemma oid_claimed: "oid (claimed a t2 t3 d) = oid d"
  by (simp add: claimed_def)

lemma map_of_to_msg: "map_of (to_msg d) = (fld d)(''id'' \<mapsto> JStr (toHexString (oid d)))"
  by (simp add: to_msg_def update_conv')

lemma claim_user:
  "truthy (opt_user opts) \<Longrightarrow>
   claim self opts w = (Inl (UnknownModifier ''user''), after_claim_reads w)"
  by (simp add: claim_unfold fOAU_unknown unknown_modifier_claim)



lemma tries_to_msg_claimed:
  "map_of (to_msg (claimed a t2 t3 d)) ''tries'' = Some (JNum (tries_of d + 1))"
  by (simp add: map_of_to_msg fld_claimed)



lemma get_store_error:
  assumes "claim self opts w = (Inl e, w1)"
  shows "get self opts w = Some (Inl (MongoError e), w1)"
  using assms by (subst get.simps) simp

section \<open>Claiming a message\<close>



section \<open>ack and ping as one store operation\<close>










lemma col_after_lease_reads: "col self (after_lease_reads w) = col self w"
  by (simp add: col_def after_lease_reads_def)

lemma clock_set_col [simp]:
  "clock (set_col self c w) = clock w" "ticks (set_col self c w) = ticks w"
  "entropy (set_col self c w) = entropy w" "draws (set_col self c w) = draws w"
  by (simp_all add: set_col_def)



section \<open>Acknowledging and renewing a lease\<close>




lemmas run_defs =
  claim_def add_def ack_def ping_def now_def nowPlusSecs_def id_hex_def col_def set_col_def
  findOneAndUpdate_def find_one_def matches_def insertOne_def ack_clash_def
  pending_query_def lease_query_def claim_update_def to_msg_def get_prop_def no_opts_def
  empty_db_def empty_collection_def Let_def

lemma get_user_rejected:
  "truthy (opt_user opts) \<Longrightarrow>
   get self opts w = Some (Inl (MongoError (UnknownModifier ''user'')), after_claim_reads w)"
  by (simp add: claim_user get_store_error)

section \<open>The claimant and the time of the first claim\<close>

text \<open>
  C8 does not hold of the code. \<^verbatim>\<open>get\<close> puts the user beside \<^verbatim>\<open>$inc\<close> and \<^verbatim>\<open>$set\<close>, as
  a key of the update document, not inside \<^verbatim>\<open>$set\<close>: the store refuses the update
  document, the call ends with the store's error and no document is changed, so no message
  records the claimant. Here: \<^verbatim>\<open>get({ user: "alice" })\<close> on a queue with two pending messages.
\<close>

theorem user_option_rejected:
  "get jobs alice two_pending =
     Some (Inl (MongoError (UnknownModifier ''user'')), after_claim_reads two_pending) \<and>
   db (after_claim_reads two_pending) = db two_pending \<and>
   map_of (claim_update ''a'' (JDate 31001) (JDate 1002) (opt_user alice)) ''user'' =
     Some (JStr ''alice'')"
  by (simp add: get_user_rejected alice_def after_claim_reads_def claim_update_def)

text \<open>
  C4 does not hold of the code. Every claim writes \<^verbatim>\<open>firstClaimed\<close> with \<^verbatim>\<open>$set\<close>, whether
  the field exists or not. Here one message is claimed at clock reading 1000 under a lease
  of 30 seconds and, the lease having lapsed, claimed again at 40003: the first claim
  writes 1002 into \<^verbatim>\<open>firstClaimed\<close> and the second claim of the same message replaces it
  with 40005.
\<close>

theorem first_claimed_overwritten:
  "(case get jobs no_opts lease_lapses of
      Some (Inr (Some m1), w1) \<Rightarrow>
        (case get jobs no_opts w1 of
           Some (Inr (Some m2), w2) \<Rightarrow>
             map_of m1 ''id'' = map_of m2 ''id'' \<and>
             map_of m1 ''firstClaimed'' = Some (JDate 1002) \<and>
             map_of m2 ''firstClaimed'' = Some (JDate 40005) \<and>
             map_of m2 ''tries'' = Some (JNum 2)
         | _ \<Rightarrow> False)
    | _ \<Rightarrow> False)"
proof -
  let ?w1 = "\<lparr>db = empty_db(''jobs'' :=
         \<lparr>docs = [\<lparr>oid = 0, obj = [(''visible'', JDate 31001), (''payload'', JStr ''A''),
                                  (''tries'', JNum 1), (''ack'', JStr ''a''),
                                  (''firstClaimed'', JDate 1002)]\<rparr>],
          next_oid = 1, ack_unique = True\<rparr>),
      clock = (\<lambda>k. if k < 3 then 1000 + int k else 40000 + int k), ticks = 3,
      entropy = (\<lambda>k. replicate (Suc k) CHR ''a''), draws = 1\<rparr>"
  have one: "get jobs no_opts lease_lapses =
      Some (Inr (Some [(''visible'', JDate 31001), (''payload'', JStr ''A''),
                       (''tries'', JNum 1), (''ack'', JStr ''a''),
                       (''firstClaimed'', JDate 1002), (''id'', JStr (toHexString 0))]), ?w1)"
    by (subst get.simps) (simp add: run_defs jobs_def lease_lapses_def numeral_3_eq_3)
  have two: "get jobs no_opts ?w1 =
      Some (Inr (Some [(''visible'', JDate 70004), (''payload'', JStr ''A''),
                       (''tries'', JNum 2), (''ack'', JStr ''aa''),
                       (''firstClaimed'', JDate 40005), (''id'', JStr (toHexString 0))]),
            set_col jobs
              \<lparr>docs = [\<lparr>oid = 0, obj = [(''visible'', JDate 70004), (''payload'', JStr ''A''),
                                  (''tries'', JNum 2), (''ack'', JStr ''aa''),
                                  (''firstClaimed'', JDate 40005)]\<rparr>],
               next_oid = 1, ack_unique = True\<rparr>
              (after_claim_reads ?w1))"
    by (subst get.simps) (simp add: run_defs jobs_def after_claim_reads_def)
  show ?thesis
    by (simp only: one two option.case prod.case sum.case) simp
qed

section \<open>The outcomes of a claim\<close>

lemma apply_update_claim_Inr:
  assumes "apply_update (claim_update a t2 t3 u) (obj d) = Inr f"
  shows "f = obj (claimed a t2 t3 d)"
proof -
  have u: "\<not> truthy u"
  proof
    assume "truthy u"
    then have "apply_update (claim_update a t2 t3 u) (obj d) = Inl (UnknownModifier ''user'') \<or>
      (\<exists>k. apply_update (claim_update a t2 t3 u) (obj d) = Inl (TypeMismatch k))"
      by (auto simp: claim_update_def split: option.splits json.splits)
    with assms show False by auto
  qed
  have n: "numeric_tries d"
  proof (rule ccontr)
    assume "\<not> numeric_tries d"
    then have "\<exists>k. apply_update (claim_update a t2 t3 u) (obj d) = Inl (TypeMismatch k)"
      by (auto simp: claim_update_def numeric_tries_def split: option.splits json.splits)
    with assms show False by auto
  qed
  from apply_update_claim [OF n u, of a t2 t3] assms show ?thesis
    by (simp add: claimed_def)
qed

lemma fOAU_cases:
  obtains (fail) e where "findOneAndUpdate c q u s = Inl e"
  | (none) "find_one q s (docs c) = None" "findOneAndUpdate c q u s = Inr (None, c)"
  | (some) i f where "find_one q s (docs c) = Some i"
      "apply_update u (obj (docs c ! i)) = Inr f"
      "findOneAndUpdate c q u s =
         Inr (Some ((docs c ! i)\<lparr>obj := f\<rparr>), c\<lparr>docs := (docs c)[i := (docs c ! i)\<lparr>obj := f\<rparr>]\<rparr>)"
  by (cases "findOneAndUpdate c q u s")
     (auto simp: findOneAndUpdate_def Let_def split: option.splits sum.splits if_splits)

lemma claim_cases:
  fixes self :: queue and opts :: options and w :: world
  defines "c \<equiv> col self w"
    and "t1 \<equiv> clock w (ticks w)"
    and "a \<equiv> entropy w (draws w)"
    and "t2 \<equiv> JDate (clock w (Suc (ticks w)) +
                      or_else (opt_visibility opts) (visibility self) * 1000)"
    and "t3 \<equiv> JDate (clock w (Suc (Suc (ticks w))))"
  obtains (fail) e where "claim self opts w = (Inl e, after_claim_reads w)"
  | (empty) "\<forall>d \<in> set (docs c). \<not> pending t1 d"
      "claim self opts w = (Inr None, after_claim_reads w)"
  | (found) i where "i < length (docs c)" "pending t1 (docs c ! i)"
      "\<forall>e \<in> set (docs c). pending t1 e \<longrightarrow> oid (docs c ! i) \<le> oid e"
      "claim self opts w =
         (Inr (Some (claimed a t2 t3 (docs c ! i))),
          set_col self (c\<lparr>docs := (docs c)[i := claimed a t2 t3 (docs c ! i)]\<rparr>)
            (after_claim_reads w))"
proof -
  let ?q = "pending_query (JDate t1)"
  let ?u = "claim_update a t2 t3 (opt_user opts)"
  let ?s = "[(''_id'', JNum 1)]"
  show thesis
  proof (cases rule: fOAU_cases [of c ?q ?u ?s])
    case (fail e)
    then have "claim self opts w = (Inl e, after_claim_reads w)"
      by (simp add: claim_unfold c_def t1_def a_def t2_def t3_def)
    then show thesis by (rule that(1))
  next
    case none
    from none(1) have "\<forall>d \<in> set (docs c). \<not> pending t1 d"
      by (simp add: find_one_sorted_None matches_pending)
    moreover from none(2) have "claim self opts w = (Inr None, after_claim_reads w)"
      by (simp add: claim_unfold c_def t1_def a_def t2_def t3_def)
    ultimately show thesis by (rule that(2))
  next
    case (some i f)
    from find_one_sorted_Some [OF some(1)]
    have i: "i < length (docs c)" and p: "pending t1 (docs c ! i)"
      and l: "\<forall>e \<in> set (docs c). pending t1 e \<longrightarrow> oid (docs c ! i) \<le> oid e"
      by (simp_all add: matches_pending)
    from apply_update_claim_Inr [OF some(2)]
    have f: "(docs c ! i)\<lparr>obj := f\<rparr> = claimed a t2 t3 (docs c ! i)"
      by (simp add: claimed_def)
    from some(3) have "claim self opts w =
         (Inr (Some (claimed a t2 t3 (docs c ! i))),
          set_col self (c\<lparr>docs := (docs c)[i := claimed a t2 t3 (docs c ! i)]\<rparr>)
            (after_claim_reads w))"
      unfolding f by (simp add: claim_unfold c_def t1_def a_def t2_def t3_def)
    with i p l show thesis by (rule that(3))
  qed
qed

lemma add_enqueued:
  "add self payload opts w =
     (Inr (toHexString (next_oid (col self w))),
      set_col self
        ((col self w)\<lparr>docs := docs (col self w) @
            [enqueued (next_oid (col self w))
               (clock w (ticks w) + or_else (opt_delay opts) (delay self) * 1000) payload],
          next_oid := Suc (next_oid (col self w))\<rparr>)
        (w\<lparr>ticks := Suc (ticks w)\<rparr>))"
  by (simp add: add_unfold enqueued_def)






section \<open>Delayed messages\<close>




section \<open>Reasoning along the recursion of get\<close>

text \<open>
  \<^verbatim>\<open>get\<close> is a partial function, so what holds of its results is proved by the induction
  that its definition gives: one case for each way the body returns, and one for the call
  of itself after a message was moved to the dead queue.
\<close>

lemma get_partial_induct [consumes 1, case_names fail empty deliver add_fail ack_fail recurse]:
  assumes ret: "get self opts w = Some r"
    and fail: "\<And>self opts w e w1.
      claim self opts w = (Inl e, w1) \<Longrightarrow> P self opts w (Inl (MongoError e), w1)"
    and empty: "\<And>self opts w w1.
      claim self opts w = (Inr None, w1) \<Longrightarrow> P self opts w (Inr None, w1)"
    and deliver: "\<And>self opts w d w1.
      claim self opts w = (Inr (Some d), w1) \<Longrightarrow>
      \<not> (deadQueue self \<noteq> None \<and> js_gt (map_of (to_msg d) ''tries'') (maxRetries self)) \<Longrightarrow>
      P self opts w (Inr (Some (to_msg d)), w1)"
    and add_fail: "\<And>self opts w d w1 e w2.
      claim self opts w = (Inr (Some d), w1) \<Longrightarrow>
      deadQueue self \<noteq> None \<and> js_gt (map_of (to_msg d) ''tries'') (maxRetries self) \<Longrightarrow>
      add (the (deadQueue self)) (JObj (to_msg d)) no_opts w1 = (Inl e, w2) \<Longrightarrow>
      P self opts w (Inl e, w2)"
    and ack_fail: "\<And>self opts w d w1 x w2 e w3.
      claim self opts w = (Inr (Some d), w1) \<Longrightarrow>
      deadQueue self \<noteq> None \<and> js_gt (map_of (to_msg d) ''tries'') (maxRetries self) \<Longrightarrow>
      add (the (deadQueue self)) (JObj (to_msg d)) no_opts w1 = (Inr x, w2) \<Longrightarrow>
      ack self (get_prop (to_msg d) ''ack'') w2 = (Inl e, w3) \<Longrightarrow>
      P self opts w (Inl e, w3)"
    and recurse: "\<And>self opts w d w1 x w2 y w3 r.
      claim self opts w = (Inr (Some d), w1) \<Longrightarrow>
      deadQueue self \<noteq> None \<and> js_gt (map_of (to_msg d) ''tries'') (maxRetries self) \<Longrightarrow>
      add (the (deadQueue self)) (JObj (to_msg d)) no_opts w1 = (Inr x, w2) \<Longrightarrow>
      ack self (get_prop (to_msg d) ''ack'') w2 = (Inr y, w3) \<Longrightarrow>
      P self no_opts w3 r \<Longrightarrow> P self opts w r"
  shows "P self opts w r"
proof (rule get.raw_induct [where P = P, OF _ ret], goal_cases)
  case (1 get' self opts w r)
  obtain res w1 where cl: "claim self opts w = (res, w1)" by (cases "claim self opts w")
  show ?case
  proof (cases res)
    case (Inl e)
    with cl "1"(2) show ?thesis by (auto intro: fail)
  next
    case (Inr od)
    show ?thesis
    proof (cases od)
      case None
      with cl Inr "1"(2) show ?thesis by (auto intro: empty)
    next
      case (Some d)
      note cl' = cl [unfolded Inr Some]
      show ?thesis
      proof (cases "deadQueue self \<noteq> None \<and> js_gt (map_of (to_msg d) ''tries'') (maxRetries self)")
        case False
        with cl' "1"(2) have "r = (Inr (Some (to_msg d)), w1)"
          by (auto simp: Let_def)
        with deliver [OF cl' False] show ?thesis by simp
      next
        case True
        obtain ares w2 where a: "add (the (deadQueue self)) (JObj (to_msg d)) no_opts w1 = (ares, w2)"
          by (cases "add (the (deadQueue self)) (JObj (to_msg d)) no_opts w1")
        show ?thesis
        proof (cases ares)
          case (Inl e)
          with cl' True a "1"(2) have "r = (Inl e, w2)"
            by (auto simp: Let_def)
          with add_fail [OF cl' True a [unfolded Inl]] show ?thesis by simp
        next
          case (Inr x)
          note a' = a [unfolded Inr]
          obtain kres w3 where k: "ack self (get_prop (to_msg d) ''ack'') w2 = (kres, w3)"
            by (cases "ack self (get_prop (to_msg d) ''ack'') w2")
          show ?thesis
          proof (cases kres)
            case (Inl e)
            with cl' True a' k "1"(2) have "r = (Inl e, w3)"
              by (auto simp: Let_def)
            with ack_fail [OF cl' True a' k [unfolded Inl]] show ?thesis by simp
          next
            case (Inr y)
            with cl' True a' k "1"(2) have "get' self no_opts w3 = Some r"
              by (auto simp: Let_def)
            from "1"(1) [OF this] have "P self no_opts w3 r" .
            from recurse [OF cl' True a' k [unfolded Inr] this] show ?thesis .
          qed
        qed
      qed
    qed
  qed
qed

lemma step_ok_refl: "step_ok d d"
  by (simp add: step_ok_def)

lemma step_ok_trans: "step_ok d d' \<Longrightarrow> step_ok d' d'' \<Longrightarrow> step_ok d d''"
  by (auto simp: step_ok_def)

lemma grows_refl: "grows ds ds"
  by (simp add: grows_def step_ok_refl)

lemma grows_trans: "grows ds ds' \<Longrightarrow> grows ds' ds'' \<Longrightarrow> grows ds ds''"
  unfolding grows_def by (meson le_trans less_le_trans step_ok_trans)

lemma grows_update: "i < length ds \<Longrightarrow> step_ok (ds ! i) d' \<Longrightarrow> grows ds (ds[i := d'])"
  by (simp add: grows_def nth_list_update step_ok_refl)

lemma grows_append: "grows ds (ds @ xs)"
  by (simp add: grows_def nth_append step_ok_refl)

lemma evolves_refl: "evolves w w"
  by (simp add: evolves_def grows_refl)

lemma evolves_trans: "evolves w w' \<Longrightarrow> evolves w' w'' \<Longrightarrow> evolves w w''"
  unfolding evolves_def by (blast intro: grows_trans)

lemma evolves_set_col:
  assumes "db w2 = db w" and "grows (docs (col self w)) (docs c)"
  shows "evolves w (set_col self c w2)"
  using assms by (simp add: evolves_def set_col_def col_def grows_refl)

lemma evolves_same_db: "db w2 = db w \<Longrightarrow> evolves w w2"
  by (simp add: evolves_def grows_refl)

lemma tries_claimed: "tries_of (claimed a t2 t3 d) = tries_of d + 1"
  by (simp add: tries_of_def fld_claimed)

lemma step_ok_claimed: "fld d ''deleted'' = None \<Longrightarrow> step_ok d (claimed a t2 t3 d)"
  by (simp add: step_ok_def oid_claimed fld_claimed tries_claimed)

lemma pending_not_deleted: "pending t d \<Longrightarrow> fld d ''deleted'' = None"
  by (simp add: pending_def)

lemma db_after_claim_reads: "db (after_claim_reads w) = db w"
  by (simp add: after_claim_reads_def)

lemma evolves_claim: "evolves w (snd (claim self opts w))"
proof (cases rule: claim_cases [of self opts w])
  case (fail e)
  then show ?thesis by (simp add: evolves_same_db db_after_claim_reads)
next
  case empty
  then show ?thesis by (simp add: evolves_same_db db_after_claim_reads)
next
  case (found i)
  from found(2) have "fld (docs (col self w) ! i) ''deleted'' = None"
    by (rule pending_not_deleted)
  then have "grows (docs (col self w))
     ((docs (col self w))[i := claimed (entropy w (draws w))
        (JDate (clock w (Suc (ticks w)) + or_else (opt_visibility opts) (visibility self) * 1000))
        (JDate (clock w (Suc (Suc (ticks w))))) (docs (col self w) ! i)])"
    using found(1) by (intro grows_update step_ok_claimed)
  then show ?thesis
    using found(4) by (simp add: evolves_set_col db_after_claim_reads)
qed

lemma evolves_add: "evolves w (snd (add self payload opts w))"
  by (simp add: add_enqueued evolves_set_col grows_append)

lemma matches_lease_not_deleted:
  "matches (lease_query a t) d \<Longrightarrow> fld d ''deleted'' = None"
  by (simp add: matches_def lease_query_def)

lemma step_ok_set:
  assumes "fld d ''deleted'' = None" "k \<noteq> ''payload''" "k \<noteq> ''tries''"
  shows "step_ok d (d\<lparr>obj := AList.update k v (obj d)\<rparr>)"
  using assms by (simp add: step_ok_def tries_of_def update_conv')

lemma lease_update_cases:
  obtains (fail) e where "findOneAndUpdate c (lease_query a t) [(''$set'', JObj [(k, v)])] [] = Inl e"
  | (none) "find_first (matches (lease_query a t)) (docs c) = None"
      "findOneAndUpdate c (lease_query a t) [(''$set'', JObj [(k, v)])] [] = Inr (None, c)"
  | (some) i where "i < length (docs c)" "matches (lease_query a t) (docs c ! i)"
      "find_first (matches (lease_query a t)) (docs c) = Some i"
      "findOneAndUpdate c (lease_query a t) [(''$set'', JObj [(k, v)])] [] =
         Inr (Some ((docs c ! i)\<lparr>obj := AList.update k v (obj (docs c ! i))\<rparr>),
              c\<lparr>docs := (docs c)[i := (docs c ! i)\<lparr>obj := AList.update k v (obj (docs c ! i))\<rparr>]\<rparr>)"
      "k \<noteq> ''payload'' \<and> k \<noteq> ''tries'' \<longrightarrow>
       grows (docs c) ((docs c)[i := (docs c ! i)\<lparr>obj := AList.update k v (obj (docs c ! i))\<rparr>])"
proof (cases rule: fOAU_cases [of c "lease_query a t" "[(''$set'', JObj [(k, v)])]" "[]"])
  case (fail e)
  then show ?thesis by (rule that(1))
next
  case none
  then show ?thesis by (intro that(2)) (simp_all add: find_one_natural)
next
  case (some i f)
  from some(1) have ff: "find_first (matches (lease_query a t)) (docs c) = Some i"
    by (simp add: find_one_natural)
  from find_first_Some [OF ff] have i: "i < length (docs c)"
    and m: "matches (lease_query a t) (docs c ! i)" by simp_all
  from some(2) have f: "f = AList.update k v (obj (docs c ! i))" by simp
  have "k \<noteq> ''payload'' \<and> k \<noteq> ''tries'' \<longrightarrow>
      grows (docs c) ((docs c)[i := (docs c ! i)\<lparr>obj := AList.update k v (obj (docs c ! i))\<rparr>])"
    using i matches_lease_not_deleted [OF m] by (auto intro!: grows_update step_ok_set)
  with i m ff some(3) [unfolded f] show ?thesis by (rule that(3))
qed

lemma evolves_ack: "evolves w (snd (ack self a w))"
proof -
  show ?thesis
  proof (cases rule: lease_update_cases [where k = "''deleted''" and c = "col self w" and a = a
    and t = "JDate (clock w (ticks w))" and v = "JDate (clock w (Suc (ticks w)))"])
  case (fail e)
  then show ?thesis by (simp add: ack_unfold evolves_same_db)
next
  case none
  then show ?thesis by (simp add: ack_unfold evolves_same_db)
next
    case (some i)
    then show ?thesis by (simp add: ack_unfold evolves_set_col)
  qed
qed

lemma evolves_ping: "evolves w (snd (ping self a opts w))"
proof -
  show ?thesis
  proof (cases rule: lease_update_cases [where k = "''visible''" and c = "col self w" and a = a
    and t = "JDate (clock w (ticks w))"
    and v = "JDate (clock w (Suc (ticks w)) +
                    or_else (opt_visibility opts) (visibility self) * 1000)"])
  case (fail e)
  then show ?thesis by (simp add: ping_unfold evolves_same_db)
next
  case none
  then show ?thesis by (simp add: ping_unfold evolves_same_db)
next
    case (some i)
    then show ?thesis by (simp add: ping_unfold evolves_set_col)
  qed
qed

lemma evolves_get:
  assumes "get self opts w = Some r"
  shows "evolves w (snd r)"
  using assms
proof (induction rule: get_partial_induct)
  case (fail self opts w e w1)
  with evolves_claim [of w self opts] show ?case by simp
next
  case (empty self opts w w1)
  with evolves_claim [of w self opts] show ?case by simp
next
  case (deliver self opts w d w1)
  with evolves_claim [of w self opts] show ?case by simp
next
  case (add_fail self opts w d w1 e w2)
  with evolves_claim [of w self opts]
    evolves_add [of w1 "the (deadQueue self)" "JObj (to_msg d)" no_opts]
  show ?case by (auto intro: evolves_trans)
next
  case (ack_fail self opts w d w1 x w2 e w3)
  with evolves_claim [of w self opts]
    evolves_add [of w1 "the (deadQueue self)" "JObj (to_msg d)" no_opts]
    evolves_ack [of w2 self "get_prop (to_msg d) ''ack''"]
  show ?case by (auto intro: evolves_trans)
next
  case (recurse self opts w d w1 x w2 y w3 r)
  with evolves_claim [of w self opts]
    evolves_add [of w1 "the (deadQueue self)" "JObj (to_msg d)" no_opts]
    evolves_ack [of w2 self "get_prop (to_msg d) ''ack''"]
  show ?case by (auto intro: evolves_trans)
qed

section \<open>The tries counter\<close>

















section \<open>A lease that runs out\<close>



section \<open>get returns\<close>







lemma get_dead_letter:
  assumes "claim self opts w = (Inr (Some d), w1)"
    and "deadQueue self = Some dq"
    and "js_gt (map_of (to_msg d) ''tries'') (maxRetries self)"
  shows "get self opts w =
     (case ack self (get_prop (to_msg d) ''ack'') (snd (add dq (JObj (to_msg d)) no_opts w1)) of
        (Inl e, w3) \<Rightarrow> Some (Inl e, w3)
      | (Inr y, w3) \<Rightarrow> get self no_opts w3)"
  using assms
  by (subst get.simps) (simp add: Let_def add_enqueued split: prod.splits sum.splits)




lemma docs_col_add:
  "docs (col self (snd (add dq payload opts w))) =
     docs (col self w) @
       (if name dq = name self
        then [enqueued (next_oid (col dq w))
                (clock w (ticks w) + or_else (opt_delay opts) (delay dq) * 1000) payload]
        else [])"
  by (simp add: add_enqueued col_def set_col_def)

lemma world_after_add [simp]:
  "clock (snd (add dq payload opts w)) = clock w"
  "ticks (snd (add dq payload opts w)) = Suc (ticks w)"
  "entropy (snd (add dq payload opts w)) = entropy w"
  "draws (snd (add dq payload opts w)) = draws w"
  by (simp_all add: add_enqueued)

lemma world_after_claim_reads [simp]:
  "clock (after_claim_reads w) = clock w"
  "ticks (after_claim_reads w) = Suc (Suc (Suc (ticks w)))"
  "entropy (after_claim_reads w) = entropy w"
  "draws (after_claim_reads w) = Suc (draws w)"
  by (simp_all add: after_claim_reads_def)

lemma world_after_lease_reads [simp]:
  "clock (after_lease_reads w) = clock w"
  "ticks (after_lease_reads w) = Suc (Suc (ticks w))"
  "entropy (after_lease_reads w) = entropy w"
  "draws (after_lease_reads w) = draws w"
  "db (after_lease_reads w) = db w"
  by (simp_all add: after_lease_reads_def)






section \<open>The dead-letter policy\<close>



lemma payload_stays:
  assumes "evolves w w'" "k < length (docs (col q w))"
  shows "k < length (docs (col q w')) \<and>
     fld (docs (col q w') ! k) ''payload'' = fld (docs (col q w) ! k) ''payload''"
proof -
  from assms(1) have g: "grows (docs (col q w)) (docs (col q w'))"
    by (simp add: evolves_def col_def)
  with assms(2) have "step_ok (docs (col q w) ! k) (docs (col q w') ! k)"
    by (simp add: grows_def)
  with g assms(2) show ?thesis by (simp add: step_ok_def grows_def)
qed

lemma evolves_dead_letter:
  assumes cl: "claim self opts w = (Inr (Some d), w1)"
    and dq: "deadQueue self = Some dq"
    and over: "js_gt (map_of (to_msg d) ''tries'') (maxRetries self)"
    and ret: "get self opts w = Some r"
  shows "evolves (snd (add dq (JObj (to_msg d)) no_opts w1)) (snd r)"
proof -
  let ?w2 = "snd (add dq (JObj (to_msg d)) no_opts w1)"
  obtain kres w3 where k: "ack self (get_prop (to_msg d) ''ack'') ?w2 = (kres, w3)"
    by (cases "ack self (get_prop (to_msg d) ''ack'') ?w2")
  from evolves_ack [of ?w2 self "get_prop (to_msg d) ''ack''"] k
  have e23: "evolves ?w2 w3" by simp
  note g = get_dead_letter [OF cl dq over]
  show ?thesis
  proof (cases kres)
    case (Inl e)
    with g k ret have "r = (Inl e, w3)" by simp
    with e23 show ?thesis by simp
  next
    case (Inr y)
    with g k ret have "get self no_opts w3 = Some r" by simp
    from evolves_get [OF this] e23 show ?thesis by (rule evolves_trans [rotated])
  qed
qed

text \<open>
  C10. When \<^verbatim>\<open>get\<close> moves a message to the dead queue, what it hands to the dead queue's
  \<^verbatim>\<open>add\<close> as payload is the whole message object as the caller would have received it:
  the identifier of the source document as \<^verbatim>\<open>id\<close>, the token just drawn as \<^verbatim>\<open>ack\<close>, the
  incremented \<^verbatim>\<open>tries\<close> and the original payload as \<^verbatim>\<open>payload\<close>. The document that \<^verbatim>\<open>add\<close>
  appends to the dead queue has this object in its \<^verbatim>\<open>payload\<close> field, still has it when the
  call of \<^verbatim>\<open>get\<close> returns, and a later \<^verbatim>\<open>get\<close> on the dead queue that returns this document
  returns it with this object as payload.
\<close>

theorem dead_letter_payload_is_whole_message:
  fixes self dq :: queue and opts :: options and w w1 :: world and d :: document
  defines "k \<equiv> length (docs (col dq w1))"
  assumes dq: "deadQueue self = Some dq"
    and cl: "claim self opts w = (Inr (Some d), w1)"
    and over: "js_gt (map_of (to_msg d) ''tries'') (maxRetries self)"
  shows "(\<exists>i < length (docs (col self w)).
            map_of (to_msg d) ''id'' = Some (JStr (toHexString (oid (docs (col self w) ! i)))) \<and>
            map_of (to_msg d) ''ack'' = Some (JStr (entropy w (draws w))) \<and>
            map_of (to_msg d) ''tries'' = Some (JNum (tries_of (docs (col self w) ! i) + 1)) \<and>
            map_of (to_msg d) ''payload'' = fld (docs (col self w) ! i) ''payload'') \<and>
         k < length (docs (col dq (snd (add dq (JObj (to_msg d)) no_opts w1)))) \<and>
         fld (docs (col dq (snd (add dq (JObj (to_msg d)) no_opts w1))) ! k) ''payload'' =
           Some (JObj (to_msg d)) \<and>
         (\<forall>r. get self opts w = Some r \<longrightarrow>
            k < length (docs (col dq (snd r))) \<and>
            fld (docs (col dq (snd r)) ! k) ''payload'' = Some (JObj (to_msg d))) \<and>
         (\<forall>gopts w2 m w3.
            k < length (docs (col dq w2)) \<and>
            fld (docs (col dq w2) ! k) ''payload'' = Some (JObj (to_msg d)) \<and>
            get dq gopts w2 = Some (Inr (Some m), w3) \<and>
            m = to_msg (docs (col dq w3) ! k) \<longrightarrow>
            map_of m ''payload'' = Some (JObj (to_msg d)))"
proof -
  let ?w2 = "snd (add dq (JObj (to_msg d)) no_opts w1)"
  have whole: "\<exists>i < length (docs (col self w)).
            map_of (to_msg d) ''id'' = Some (JStr (toHexString (oid (docs (col self w) ! i)))) \<and>
            map_of (to_msg d) ''ack'' = Some (JStr (entropy w (draws w))) \<and>
            map_of (to_msg d) ''tries'' = Some (JNum (tries_of (docs (col self w) ! i) + 1)) \<and>
            map_of (to_msg d) ''payload'' = fld (docs (col self w) ! i) ''payload''"
  proof (cases rule: claim_cases [of self opts w])
    case (fail e)
    with cl show ?thesis by simp
  next
    case empty
    with cl show ?thesis by simp
  next
    case (found i)
    from found(4) cl have d: "d = claimed (entropy w (draws w))
        (JDate (clock w (Suc (ticks w)) + or_else (opt_visibility opts) (visibility self) * 1000))
        (JDate (clock w (Suc (Suc (ticks w))))) (docs (col self w) ! i)"
      by simp
    show ?thesis
      apply (rule exI [of _ i])
      apply (intro conjI)
          apply (rule found(1))
         apply (simp add: map_of_to_msg d oid_claimed)
        apply (simp add: map_of_to_msg d fld_claimed)
       apply (simp add: d tries_to_msg_claimed)
      apply (simp add: map_of_to_msg d fld_claimed)
      done
  qed
  have docs2: "docs (col dq ?w2) = docs (col dq w1) @
      [enqueued (next_oid (col dq w1))
         (clock w1 (ticks w1) + or_else (opt_delay no_opts) (delay dq) * 1000) (JObj (to_msg d))]"
    by (simp add: docs_col_add)
  have k2: "k < length (docs (col dq ?w2))"
    and p2: "fld (docs (col dq ?w2) ! k) ''payload'' = Some (JObj (to_msg d))"
    by (simp_all add: docs2 k_def enqueued_def)
  have after: "k < length (docs (col dq (snd r))) \<and>
            fld (docs (col dq (snd r)) ! k) ''payload'' = Some (JObj (to_msg d))"
    if "get self opts w = Some r" for r
    using payload_stays [OF evolves_dead_letter [OF cl dq over that] k2] p2 by simp
  have later: "map_of m ''payload'' = Some (JObj (to_msg d))"
    if "k < length (docs (col dq w2)) \<and>
        fld (docs (col dq w2) ! k) ''payload'' = Some (JObj (to_msg d)) \<and>
        get dq gopts w2 = Some (Inr (Some m), w3) \<and>
        m = to_msg (docs (col dq w3) ! k)" for gopts w2 m w3
  proof -
    from that have g: "get dq gopts w2 = Some (Inr (Some m), w3)" by simp
    from evolves_get [OF g] have "evolves w2 w3" by simp
    from payload_stays [OF this, of k dq] that
    show ?thesis by (simp add: map_of_to_msg)
  qed
  show ?thesis
    apply (intro conjI)
        apply (rule whole)
       apply (rule k2)
      apply (rule p2)
     apply (intro allI impI conjI)
      apply (erule after [THEN conjunct1])
     apply (erule after [THEN conjunct2])
    apply (intro allI impI)
    apply (erule later)
    done
qed

theorem dead_letter_payload_is_whole_message_witness:
  "\<exists>m w'. get jobs_dl no_opts one_exhausted = Some (Inr (Some m), w') \<and>
     fld (docs (col dead w') ! 0) ''payload'' =
       Some (JObj [(''visible'', JDate 31001), (''payload'', JStr ''A''), (''tries'', JNum 2),
                   (''ack'', JStr ''a''), (''firstClaimed'', JDate 1002),
                   (''id'', JStr (toHexString 0))])"
proof -
  have dq: "deadQueue jobs_dl = Some dead"
    by (simp add: jobs_dl_def)
  have "\<exists>d w1. claim jobs_dl no_opts one_exhausted = (Inr (Some d), w1) \<and>
      js_gt (map_of (to_msg d) ''tries'') (maxRetries jobs_dl) \<and>
      length (docs (col dead w1)) = 0 \<and>
      to_msg d = [(''visible'', JDate 31001), (''payload'', JStr ''A''), (''tries'', JNum 2),
                   (''ack'', JStr ''a''), (''firstClaimed'', JDate 1002),
                   (''id'', JStr (toHexString 0))]"
    by (simp add: run_defs jobs_dl_def dead_def one_exhausted_def)
  then obtain d w1 where cl: "claim jobs_dl no_opts one_exhausted = (Inr (Some d), w1)"
    and over: "js_gt (map_of (to_msg d) ''tries'') (maxRetries jobs_dl)"
    and k: "length (docs (col dead w1)) = 0"
    and msg: "to_msg d = [(''visible'', JDate 31001), (''payload'', JStr ''A''),
                   (''tries'', JNum 2), (''ack'', JStr ''a''), (''firstClaimed'', JDate 1002),
                   (''id'', JStr (toHexString 0))]"
    by blast
  have "\<exists>m w'. get jobs_dl no_opts one_exhausted = Some (Inr (Some m), w')"
    apply (subst get.simps)
    apply (simp add: run_defs jobs_dl_def dead_def one_exhausted_def)
    apply (subst get.simps)
    apply (simp add: run_defs jobs_dl_def dead_def one_exhausted_def)
    done
  then obtain m w' where g: "get jobs_dl no_opts one_exhausted = Some (Inr (Some m), w')"
    by blast
  note inst = dead_letter_payload_is_whole_message [OF dq cl over]
  note fin = inst [THEN conjunct2, THEN conjunct2, THEN conjunct2, THEN conjunct1,
      rule_format, OF g, THEN conjunct2]
  have "fld (docs (col dead w') ! 0) ''payload'' = Some (JObj (to_msg d))"
    using fin by (simp only: k snd_conv)
  with g show ?thesis
    by (simp only: msg) blast
qed

end
